theory Spec2Isabelle
  imports Complex_Main "HOL-Library.Word"
begin

section \<open>The CPU compute backend of magnetron (magnetron\_cpu.c)\<close>

text \<open>
  The development follows the source file: the storage buffer and its three operations, the
  ISA feature gate, the thread pool with its phase counter protocol, the dynamic width
  heuristic and the device interface on top of them.

  Machine integers are words: \<open>size_t\<close> and \<open>uintptr_t\<close> are \<open>64 word\<close>,
  \<open>uint32_t\<close> is \<open>32 word\<close>, \<open>uint8_t\<close> is \<open>8 word\<close>; \<open>+\<close> and \<open>-\<close> wrap around
  as the unsigned C operators do. Every way the C code can stop without returning is a value
  of the type \<open>mag_fault\<close>.
\<close>

type_synonym u8 = "8 word"
type_synonym u32 = "32 word"
type_synonym u64 = "64 word"

text \<open>
  Modelled from the spec: the macros \<open>mag_assert2\<close> and \<open>mag_panic\<close> are declared in
  \<open>magnetron_internal.h\<close>, which is not among the sources. The spec (section 7) has
  bounds overruns, failures of the synchronisation primitives and unsupported operations
  ``surfaced as fatal aborts with a diagnostic; never recovered'', so a failed assertion and
  a panic end the call, in every build. The third fault is an access of \<open>memset\<close> or
  \<open>memcpy\<close> outside the object it was given, after which the C code has no defined
  result.
\<close>

datatype mag_fault =
    Assert_failed             \<comment> \<open>\<open>mag_assert2(e)\<close> with \<open>e\<close> false: fatal abort\<close>
  | Panic string              \<comment> \<open>\<open>mag_panic(msg)\<close>: fatal abort with the message\<close>
  | Out_of_bounds             \<comment> \<open>\<open>memset\<close>/\<open>memcpy\<close> leaving the object it was given\<close>


section \<open>Storage buffer\<close>

text \<open>
  \<open>mag_storage_buffer_t\<close>. The three function pointers of the descriptor are values of
  \<open>mag_buf_fn option\<close>: \<open>None\<close> is the null pointer, \<open>Some f\<close> the address of the
  function named \<open>f\<close>. The field names carry the prefix \<open>sto_\<close> (the C code calls the
  descriptor \<open>sto\<close>), since \<open>size\<close> and \<open>set\<close> are constants of HOL.
\<close>

datatype mag_buf_fn =
    Fn_mag_cpu_buf_set
  | Fn_mag_cpu_buf_cpy_host_device
  | Fn_mag_cpu_buf_cpy_device_host

record 'h mag_storage_buffer_t =
  sto_base :: u64
  sto_size :: u64
  sto_alignment :: u64
  sto_host :: 'h
  sto_set :: "mag_buf_fn option"
  sto_cpy_host_device :: "mag_buf_fn option"
  sto_cpy_device_host :: "mag_buf_fn option"

text \<open>
  The block behind a descriptor is the list of its bytes, byte \<open>i\<close> of the list living at
  address \<open>sto_base + i\<close>. A descriptor and a block fit together when the block has
  \<open>sto_size\<close> bytes and lies inside the address space, which is what the allocator
  returns.
\<close>

definition sto_block_ok :: "'h mag_storage_buffer_t \<Rightarrow> u8 list \<Rightarrow> bool" where
  "sto_block_ok sto mem \<longleftrightarrow>
     length mem = unat (sto_size sto) \<and> unat (sto_base sto) + unat (sto_size sto) < 2 ^ 64"

text \<open>
  \<open>memset(base + off, x, n)\<close> and the two directions of \<open>memcpy\<close>, on a block addressed
  from its base. An access that leaves the block (or the host array) is \<open>Out_of_bounds\<close>.
\<close>

definition memset_block :: "u8 list \<Rightarrow> nat \<Rightarrow> u8 \<Rightarrow> nat \<Rightarrow> mag_fault + u8 list" where
  "memset_block mem off x n =
     (if off + n \<le> length mem
      then Inr (take off mem @ replicate n x @ drop (off + n) mem)
      else Inl Out_of_bounds)"

definition memcpy_to_block :: "u8 list \<Rightarrow> nat \<Rightarrow> u8 list \<Rightarrow> nat \<Rightarrow> mag_fault + u8 list" where
  "memcpy_to_block mem off src n =
     (if off + n \<le> length mem \<and> n \<le> length src
      then Inr (take off mem @ take n src @ drop (off + n) mem)
      else Inl Out_of_bounds)"

definition memcpy_from_block :: "u8 list \<Rightarrow> u8 list \<Rightarrow> nat \<Rightarrow> nat \<Rightarrow> mag_fault + u8 list" where
  "memcpy_from_block dst mem off n =
     (if off + n \<le> length mem \<and> n \<le> length dst
      then Inr (take n (drop off mem) @ drop n dst)
      else Inl Out_of_bounds)"

text \<open>
  The three operations. Each one evaluates its assertion first, in the pointer arithmetic
  of the source (\<open>sto->base+offs <= sto->base+sto->size\<close> on \<open>uintptr_t\<close>), and only
  then touches memory. \<open>mag_cpu_buf_set\<close> takes no length: it fills
  \<open>sto->size-offs\<close> bytes. The functions return the new contents of the block
  (\<open>set\<close>, \<open>cpy_host_device\<close>) or of the host array \<open>dst\<close> (\<open>cpy_device_host\<close>).
\<close>

definition mag_cpu_buf_set ::
  "'h mag_storage_buffer_t \<Rightarrow> u8 list \<Rightarrow> u64 \<Rightarrow> u8 \<Rightarrow> mag_fault + u8 list" where
  "mag_cpu_buf_set sto mem offs x =
     (if \<not> (sto_base sto + offs \<le> sto_base sto + sto_size sto) then Inl Assert_failed
      else memset_block mem (unat offs) x (unat (sto_size sto - offs)))"

definition mag_cpu_buf_cpy_host_device ::
  "'h mag_storage_buffer_t \<Rightarrow> u8 list \<Rightarrow> u64 \<Rightarrow> u8 list \<Rightarrow> u64 \<Rightarrow> mag_fault + u8 list" where
  "mag_cpu_buf_cpy_host_device sto mem offs src n =
     (if \<not> (sto_base sto + offs + n \<le> sto_base sto + sto_size sto) then Inl Assert_failed
      else memcpy_to_block mem (unat offs) src (unat n))"

definition mag_cpu_buf_cpy_device_host ::
  "'h mag_storage_buffer_t \<Rightarrow> u8 list \<Rightarrow> u64 \<Rightarrow> u8 list \<Rightarrow> u64 \<Rightarrow> mag_fault + u8 list" where
  "mag_cpu_buf_cpy_device_host sto mem offs dst n =
     (if \<not> (sto_base sto + offs + n \<le> sto_base sto + sto_size sto) then Inl Assert_failed
      else memcpy_from_block dst mem (unat offs) (unat n))"

text \<open>
  \<open>mag_cpu_alloc_storage\<close>. The allocator \<open>mag_alloc_aligned\<close> belongs to the context and
  is a parameter: it maps a size and an alignment to the address of the new block.
\<close>

definition mag_cpu_alloc_storage ::
  "(u64 \<Rightarrow> u64 \<Rightarrow> u64) \<Rightarrow> 'h \<Rightarrow> u64 \<Rightarrow> mag_fault + 'h mag_storage_buffer_t" where
  "mag_cpu_alloc_storage mag_alloc_aligned host sz =
     (if sz = 0 then Inl Assert_failed
      else let align = 16; block = mag_alloc_aligned sz align
           in Inr \<lparr> sto_base = block, sto_size = sz, sto_alignment = align, sto_host = host,
                    sto_set = Some Fn_mag_cpu_buf_set,
                    sto_cpy_host_device = Some Fn_mag_cpu_buf_cpy_host_device,
                    sto_cpy_device_host = Some Fn_mag_cpu_buf_cpy_device_host \<rparr>)"


text \<open>A descriptor of four bytes and its block, for evaluating the operations.\<close>

definition sto4 :: "unit mag_storage_buffer_t" where
  "sto4 = \<lparr> sto_base = 4096, sto_size = 4, sto_alignment = 16, sto_host = (),
            sto_set = Some Fn_mag_cpu_buf_set,
            sto_cpy_host_device = Some Fn_mag_cpu_buf_cpy_host_device,
            sto_cpy_device_host = Some Fn_mag_cpu_buf_cpy_device_host \<rparr>"


section \<open>ISA feature gate\<close>

text \<open>
  \<open>mag_amd64_blas_specialization\<close>. The C function \<open>get_feature_permutation\<close> returns a
  pointer to an array and writes the number of its entries to \<open>*out_num\<close>; here it is an
  optional list, \<open>None\<close> for the null pointer, the length of the list being the count.
  The kernel registry is a type parameter \<open>'k\<close> and an installer a function on it.
  What the selector does besides returning is recorded as a list of events, in order.
\<close>

datatype mag_event =
    Inject_kernels string     \<comment> \<open>\<open>(*spec->inject_kernels)(kernels)\<close> of the named specialization\<close>
  | Fallback_kernels          \<comment> \<open>\<open>mag_cpu_blas_specialization_fallback(kernels)\<close>\<close>
  | Log_info string           \<comment> \<open>one line of \<open>mag_log_info\<close>\<close>

record ('f, 'k) mag_amd64_blas_specialization =
  name :: string
  get_feature_permutation :: "'f list option"
  inject_kernels :: "'k \<Rightarrow> 'k"

text \<open>
  The inner loop \<open>has_all_features &= mag_ctx_x86_64_cpu_has_feature(ctx, features[j])\<close>,
  with the flag as accumulator. The feature test of the context is a parameter.
\<close>

fun has_all_features_loop :: "('f \<Rightarrow> bool) \<Rightarrow> 'f list \<Rightarrow> bool \<Rightarrow> bool" where
  "has_all_features_loop has_feature [] has_all_features = has_all_features"
| "has_all_features_loop has_feature (f # features) has_all_features =
     has_all_features_loop has_feature features (has_all_features \<and> has_feature f)"

text \<open>
  The outer loop over the table, best specialization first. The result is the returned
  flag, the registry after the call and the events.
\<close>

fun mag_amd64_blas_detect_optimal_specialization ::
  "('c \<Rightarrow> 'f \<Rightarrow> bool) \<Rightarrow> ('k \<Rightarrow> 'k) \<Rightarrow> ('f, 'k) mag_amd64_blas_specialization list \<Rightarrow>
   'c \<Rightarrow> 'k \<Rightarrow> bool \<times> 'k \<times> mag_event list" where
  "mag_amd64_blas_detect_optimal_specialization has_feature fallback [] ctx kernels =
     (False, fallback kernels, [Fallback_kernels])"
| "mag_amd64_blas_detect_optimal_specialization has_feature fallback (spec # specs) ctx kernels =
     (case get_feature_permutation spec of
        None \<Rightarrow> mag_amd64_blas_detect_optimal_specialization has_feature fallback specs ctx kernels
      | Some features \<Rightarrow>
          if features = [] then
            mag_amd64_blas_detect_optimal_specialization has_feature fallback specs ctx kernels
          else if has_all_features_loop (has_feature ctx) features True then
            (True, inject_kernels spec kernels,
             [Inject_kernels (name spec), Log_info (''Using BLAS specialization: '' @ name spec)])
          else mag_amd64_blas_detect_optimal_specialization has_feature fallback specs ctx kernels)"

text \<open>
  The table of the source: AVX-512F, AVX2, AVX, SSE4.1, in this order. The feature lists
  and installers are defined in other translation units and are parameters, indexed by the
  name given to the macro.
\<close>

definition mag_amd64_blas_spec_permute ::
  "(string \<Rightarrow> 'f list option) \<Rightarrow> (string \<Rightarrow> 'k \<Rightarrow> 'k) \<Rightarrow> string \<Rightarrow>
   ('f, 'k) mag_amd64_blas_specialization" where
  "mag_amd64_blas_spec_permute features installer feat =
     \<lparr> name = ''amd64_'' @ feat, get_feature_permutation = features feat,
       inject_kernels = installer feat \<rparr>"

definition mag_amd64_blas_specializations ::
  "(string \<Rightarrow> 'f list option) \<Rightarrow> (string \<Rightarrow> 'k \<Rightarrow> 'k) \<Rightarrow>
   ('f, 'k) mag_amd64_blas_specialization list" where
  "mag_amd64_blas_specializations features installer =
     map (mag_amd64_blas_spec_permute features installer)
       [''avx512f'', ''avx2'', ''avx'', ''sse41'']"

text \<open>
  \<open>mag_blas_detect_optimal_specialization\<close>: the preprocessor test for x86-64 is the flag
  \<open>x86_64\<close>.
\<close>

definition mag_blas_detect_optimal_specialization ::
  "bool \<Rightarrow> ('c \<Rightarrow> 'f \<Rightarrow> bool) \<Rightarrow> ('k \<Rightarrow> 'k) \<Rightarrow> ('f, 'k) mag_amd64_blas_specialization list \<Rightarrow>
   'c \<Rightarrow> 'k \<Rightarrow> bool \<times> 'k \<times> mag_event list" where
  "mag_blas_detect_optimal_specialization x86_64 has_feature fallback specs ctx kernels =
     (if x86_64
      then mag_amd64_blas_detect_optimal_specialization has_feature fallback specs ctx kernels
      else (False, fallback kernels, [Fallback_kernels]))"

text \<open>
  What the selector is meant to pick: a specialization is eligible when its feature list
  is there, is not empty, and the host has every feature on it.
\<close>

definition spec_eligible ::
  "('f \<Rightarrow> bool) \<Rightarrow> ('f, 'k) mag_amd64_blas_specialization \<Rightarrow> bool" where
  "spec_eligible host_has spec =
     (case get_feature_permutation spec of
        None \<Rightarrow> False
      | Some features \<Rightarrow> features \<noteq> [] \<and> list_all host_has features)"

definition is_installer_call :: "mag_event \<Rightarrow> bool" where
  "is_installer_call e = (case e of Log_info _ \<Rightarrow> False | _ \<Rightarrow> True)"



text \<open>
  The selection in the words of the spec (4.B): the first eligible specialization of the
  table is installed and logged, and the generic kernels are installed when there is none.
\<close>

definition select_spec ::
  "('f \<Rightarrow> bool) \<Rightarrow> ('k \<Rightarrow> 'k) \<Rightarrow> ('f, 'k) mag_amd64_blas_specialization list \<Rightarrow> 'k \<Rightarrow>
   bool \<times> 'k \<times> mag_event list" where
  "select_spec host fallback specs kernels =
     (case find (spec_eligible host) specs of
        Some spec \<Rightarrow> (True, inject_kernels spec kernels,
                       [Inject_kernels (name spec),
                        Log_info (''Using BLAS specialization: '' @ name spec)])
      | None \<Rightarrow> (False, fallback kernels, [Fallback_kernels]))"


section \<open>Compute payload, workers and the thread pool\<close>

text \<open>
  An operator node, as far as this file reads it: the operator kind, which indexes the
  kernel table, and the element count (\<open>int64_t\<close>, read with \<open>sint\<close>).
\<close>

record mag_tensor_t =
  op :: nat
  numel :: u64

record mag_compute_payload_t =
  node :: "mag_tensor_t option"
  thread_idx :: u64
  thread_num :: u64

text \<open>
  \<open>mag_worker_t\<close> and \<open>mag_threadpool_t\<close>. The phase field of a worker is
  \<open>worker_phase\<close>, to keep it apart from the phase of the pool. The mutex and the condition
  variable are not fields here: they show in which steps a thread can take (see below).
  The pointer from a worker back to its pool and the thread handle are left out.
\<close>

record mag_worker_t =
  worker_phase :: u64
  payload :: mag_compute_payload_t
  is_async :: bool

record mag_threadpool_t =
  interrupt :: bool
  phase :: u64
  num_completed :: u64
  num_allocated_workers :: u32
  num_active_workers :: u32
  num_workers_online :: u32
  workers :: "mag_worker_t list"

text \<open>
  A call that waits on the condition variable either cannot go on in the present state of
  the pool (\<open>Blocked\<close>: the loop around \<open>mag_cv_wait\<close> finds its condition true and sleeps
  again) or returns.
\<close>

datatype 'a mag_blocking = Blocked | Returned 'a

text \<open>
  \<open>mag_worker_await_work\<close> for the worker with index \<open>i\<close>: everything after the wait loop
  runs under the mutex, in one step.
\<close>

definition mag_worker_await_work ::
  "nat \<Rightarrow> mag_threadpool_t \<Rightarrow> (bool \<times> mag_threadpool_t) mag_blocking" where
  "mag_worker_await_work i pool =
     (let worker = workers pool ! i in
      if \<not> (interrupt pool \<or> phase pool > worker_phase worker) then Blocked
      else if interrupt pool then Returned (False, pool)
      else Returned (True,
             pool \<lparr> workers := (workers pool) [i := worker \<lparr> worker_phase := phase pool \<rparr>] \<rparr>))"

text \<open>
  \<open>mag_worker_exec_thread_local\<close>. The kernels are external; a call of
  \<open>(*kernels->fwd[payload->node->op])(payload)\<close> is recorded by appending the payload, as
  it is at the call, to the list of kernel calls.
\<close>

definition mag_worker_exec_thread_local ::
  "mag_compute_payload_t \<Rightarrow> mag_compute_payload_t list \<Rightarrow>
   mag_compute_payload_t \<times> mag_compute_payload_t list" where
  "mag_worker_exec_thread_local pl calls =
     (case node pl of
        Some n \<Rightarrow> (pl \<lparr> node := None \<rparr>, calls @ [pl])
      | None \<Rightarrow> (pl, calls))"

text \<open>
  \<open>mag_worker_exec_and_broadcast\<close> on the payload of worker \<open>i\<close> (the C function gets the
  pointer \<open>&workers[i].payload\<close>). The completion counter is compared with the number of
  allocated workers; the broadcast that follows a match changes no field of the pool, it
  lets a thread blocked in \<open>mag_threadpool_barrier\<close> test its condition again.
\<close>

definition mag_worker_exec_and_broadcast ::
  "nat \<Rightarrow> mag_threadpool_t \<times> mag_compute_payload_t list \<Rightarrow>
   mag_threadpool_t \<times> mag_compute_payload_t list" where
  "mag_worker_exec_and_broadcast i st =
     (let pool = fst st; calls = snd st;
          worker = workers pool ! i;
          r = (if thread_idx (payload worker) < ucast (num_active_workers pool)
               then mag_worker_exec_thread_local (payload worker) calls
               else (payload worker, calls))
      in (pool \<lparr> workers := (workers pool) [i := worker \<lparr> payload := fst r \<rparr>],
                 num_completed := num_completed pool + 1 \<rparr>,
          snd r))"

text \<open>
  \<open>mag_threadpool_create\<close>, as the pool is when the function returns: every worker has
  phase 0 and an empty payload, worker 0 is the calling thread (not asynchronous), and the
  \<open>num_workers - 1\<close> threads have come online.
\<close>

definition mag_threadpool_create :: "u32 \<Rightarrow> mag_threadpool_t" where
  "mag_threadpool_create num_workers =
     \<lparr> interrupt = False, phase = 0, num_completed = 0,
       num_allocated_workers = num_workers, num_active_workers = num_workers,
       num_workers_online = num_workers - 1,
       workers = map (\<lambda>ti. \<lparr> worker_phase = 0,
                              payload = \<lparr> node = None, thread_idx = of_nat ti,
                                          thread_num = ucast num_workers \<rparr>,
                              is_async = (ti \<noteq> 0) \<rparr>) [0 ..< unat num_workers] \<rparr>"

text \<open>\<open>mag_threadpool_kickoff\<close>: one critical section.\<close>

definition mag_threadpool_kickoff ::
  "mag_threadpool_t \<Rightarrow> mag_tensor_t \<Rightarrow> u32 \<Rightarrow> mag_threadpool_t" where
  "mag_threadpool_kickoff pool nd num_active =
     (let n = unat (num_allocated_workers pool);
          set_up = (\<lambda>w. w \<lparr> payload := (payload w) \<lparr> node := Some nd,
                                                      thread_num := ucast num_active \<rparr> \<rparr>)
      in pool \<lparr> num_active_workers := num_active,
                workers := map set_up (take n (workers pool)) @ drop n (workers pool),
                phase := phase pool + 1,
                num_completed := 0 \<rparr>)"

text \<open>
  \<open>mag_threadpool_barrier\<close>: returns only in a state where the completion counter equals
  the number of allocated workers, and changes nothing. (The loop over the phases under
  \<open>MAG_DEBUG\<close> is not part of the build: it names a field \<open>num_workers\<close> that the pool does
  not have.)
\<close>

definition mag_threadpool_barrier :: "mag_threadpool_t \<Rightarrow> mag_threadpool_t mag_blocking" where
  "mag_threadpool_barrier pool =
     (if num_completed pool \<noteq> ucast (num_allocated_workers pool) then Blocked
      else Returned pool)"

text \<open>
  The calling thread runs a sequence of calls; between two of them the worker threads may
  run. \<open>mag_threadpool_parallel_compute\<close> and \<open>mag_cpu_exec_fwd\<close> produce that sequence.
\<close>

datatype mag_call =
    Call_exec_thread_local mag_compute_payload_t
      \<comment> \<open>\<open>mag_worker_exec_thread_local(&cpu_dvc->kernels, &payload)\<close> on a local payload\<close>
  | Call_kickoff mag_tensor_t u32
  | Call_cv_broadcast
  | Call_exec_and_broadcast nat
      \<comment> \<open>\<open>mag_worker_exec_and_broadcast\<close> on the payload of the worker with this index\<close>
  | Call_barrier

definition mag_threadpool_parallel_compute ::
  "mag_threadpool_t option \<Rightarrow> mag_tensor_t \<Rightarrow> u32 \<Rightarrow> mag_fault + mag_call list" where
  "mag_threadpool_parallel_compute pool nd num_active =
     (case pool of
        None \<Rightarrow> Inl Assert_failed
      | Some p \<Rightarrow> Inr [Call_kickoff nd num_active, Call_cv_broadcast,
                       Call_exec_and_broadcast 0, Call_barrier])"


section \<open>The CPU device and the dynamic width heuristic\<close>

record 'k mag_cpu_device_t =
  dvc_pool :: "mag_threadpool_t option"
  dvc_num_allocated_workers :: u32
  dvc_kernels :: 'k
  growth_scale :: real
  numel_threshold :: u64

text \<open>
  The growth scale is a \<open>double\<close>; the field holds its value as a real number. The
  constant \<open>0.3\<close> of the source is the double next to three tenths,
  \<open>5404319552844595 / 2^54\<close>.
\<close>

definition double_0_3 :: real where
  "double_0_3 = 5404319552844595 / 18014398509481984"

text \<open>
  The heuristic holds one floating-point expression,
  \<open>(uint32_t)ceil(dvc->growth_scale * log2((int64_t)numel))\<close>. What it yields is fixed
  by the C library's \<open>log2\<close>, by the rounding of the product and, where the value does not
  fit \<open>uint32_t\<close> (C11 6.3.1.4 leaves that case undefined), by the conversion of the
  target. None of these is decided by \<open>magnetron_cpu.c\<close>, so the expression is a
  parameter of the functions below: a function from the growth scale and the number under
  the logarithm to the \<open>uint32_t\<close> the compiled expression produces.
\<close>

type_synonym mag_scaled_log2 = "real \<Rightarrow> int \<Rightarrow> u32"

text \<open>
  Modelled from the spec: the macros \<open>mag_xmin\<close> and \<open>mag_xmax\<close> are declared in
  \<open>magnetron_internal.h\<close>, which is not among the sources; the spec has the heuristic
  ``clamp to \<open>[1, N]\<close>'', so they are the minimum and the maximum, here of two
  \<open>uint32_t\<close> (the constant 1 is converted to unsigned by the usual conversions).
\<close>

definition mag_xmax :: "u32 \<Rightarrow> u32 \<Rightarrow> u32" where
  "mag_xmax x y = (if x > y then x else y)"

definition mag_xmin :: "u32 \<Rightarrow> u32 \<Rightarrow> u32" where
  "mag_xmin x y = (if x < y then x else y)"

text \<open>
  \<open>mag_cpu_dynamic_work_scaling\<close>. After the first test \<open>numel\<close> is at least the
  threshold, and \<open>numel -= dvc->numel_threshold\<close> is the subtraction on 64 bits, read as
  signed (with the threshold of \<open>mag_cpu_init_device\<close>, which is not negative, it cannot
  overflow). There is no test between the subtraction and the logarithm: at the threshold
  itself the expression is evaluated at 0. The clamp is applied to what the expression
  yields.
\<close>

definition mag_cpu_dynamic_work_scaling ::
  "mag_scaled_log2 \<Rightarrow> 'k mag_cpu_device_t \<Rightarrow> u64 \<Rightarrow> u32" where
  "mag_cpu_dynamic_work_scaling ceil_scaled_log2 dvc n =
     (if dvc_pool dvc = None \<or> sint n < sint (numel_threshold dvc) then 1
      else
        let n' = n - numel_threshold dvc;
            workers' = ceil_scaled_log2 (growth_scale dvc) (sint n')
        in mag_xmin (dvc_num_allocated_workers dvc) (mag_xmax 1 workers'))"

text \<open>
  \<open>mag_cpu_init_device\<close>: the defaults, one run of the selector on the empty registry
  \<open>kernels0\<close>, and a pool when more than one thread is asked for. The result is the device
  and the events of the selector.
\<close>

definition mag_cpu_init_device ::
  "bool \<Rightarrow> ('c \<Rightarrow> 'f \<Rightarrow> bool) \<Rightarrow> ('k \<Rightarrow> 'k) \<Rightarrow> ('f, 'k) mag_amd64_blas_specialization list \<Rightarrow>
   'k \<Rightarrow> 'c \<Rightarrow> u32 \<Rightarrow> 'k mag_cpu_device_t \<times> mag_event list" where
  "mag_cpu_init_device x86_64 has_feature fallback specs kernels0 ctx num_threads =
     (let dvc = \<lparr> dvc_pool = None, dvc_num_allocated_workers = 0, dvc_kernels = kernels0,
                  growth_scale = double_0_3, numel_threshold = 250000 \<rparr>;
          r = mag_blas_detect_optimal_specialization x86_64 has_feature fallback specs ctx
                (dvc_kernels dvc);
          dvc = dvc \<lparr> dvc_kernels := fst (snd r) \<rparr>;
          dvc = (if num_threads > 1
                 then dvc \<lparr> dvc_pool := Some (mag_threadpool_create num_threads),
                            dvc_num_allocated_workers := num_threads \<rparr>
                 else dvc)
      in (dvc, snd (snd r)))"

text \<open>
  \<open>mag_cpu_exec_fwd\<close>: the calls the calling thread makes for one node.
\<close>

definition mag_cpu_exec_fwd ::
  "mag_scaled_log2 \<Rightarrow> 'k mag_cpu_device_t \<Rightarrow> mag_tensor_t \<Rightarrow> mag_fault + mag_call list" where
  "mag_cpu_exec_fwd ceil_scaled_log2 dvc nd =
     (let num_active = mag_cpu_dynamic_work_scaling ceil_scaled_log2 dvc (numel nd)
      in if dvc_pool dvc = None \<or> num_active \<le> 1
         then Inr [Call_exec_thread_local \<lparr> node = Some nd, thread_idx = 0, thread_num = 1 \<rparr>]
         else mag_threadpool_parallel_compute (dvc_pool dvc) nd num_active)"

text \<open>
  \<open>mag_cpu_exec_bwd\<close>: both arguments are cast to void and the function panics. The
  result type has room for a device state after the call; the function never produces one.
\<close>

definition mag_cpu_exec_bwd :: "'k mag_cpu_device_t \<Rightarrow> mag_tensor_t \<Rightarrow> mag_fault + 'k mag_cpu_device_t" where
  "mag_cpu_exec_bwd dvc root_node = Inl (Panic ''NYI'')"



section \<open>The pool at work: the calling thread and the worker threads, interleaved\<close>

text \<open>
  A configuration is the pool, the kernel calls made so far, the calls the calling thread
  still has to make, and where each worker thread stands in the loop of
  \<open>mag_worker_thread_exec_op\<close>. Position \<open>i\<close> of \<open>cfg_threads\<close> belongs to worker \<open>i\<close>;
  only asynchronous workers have a thread, so position 0 is never used.
\<close>

datatype mag_thread_pc = At_await_work | At_exec_and_broadcast | Thread_exited

record mag_config =
  cfg_pool :: mag_threadpool_t
  cfg_calls :: "mag_compute_payload_t list"
  cfg_main :: "mag_call list"
  cfg_threads :: "mag_thread_pc list"

definition mag_config_init :: "mag_threadpool_t \<Rightarrow> mag_config" where
  "mag_config_init pool =
     \<lparr> cfg_pool = pool, cfg_calls = [], cfg_main = [],
       cfg_threads = replicate (length (workers pool)) At_await_work \<rparr>"

text \<open>
  One step of the calling thread: its next call, when that call can return in the present
  state. \<open>None\<close> means no step (nothing to do, or blocked in the barrier).
\<close>

fun mag_main_step :: "mag_call list \<Rightarrow> mag_config \<Rightarrow> mag_config option" where
  "mag_main_step [] c = None"
| "mag_main_step (Call_exec_thread_local pl # rest) c =
     Some (c \<lparr> cfg_calls := snd (mag_worker_exec_thread_local pl (cfg_calls c)),
               cfg_main := rest \<rparr>)"
| "mag_main_step (Call_kickoff nd k # rest) c =
     Some (c \<lparr> cfg_pool := mag_threadpool_kickoff (cfg_pool c) nd k, cfg_main := rest \<rparr>)"
| "mag_main_step (Call_cv_broadcast # rest) c = Some (c \<lparr> cfg_main := rest \<rparr>)"
| "mag_main_step (Call_exec_and_broadcast i # rest) c =
     (let r = mag_worker_exec_and_broadcast i (cfg_pool c, cfg_calls c)
      in Some (c \<lparr> cfg_pool := fst r, cfg_calls := snd r, cfg_main := rest \<rparr>))"
| "mag_main_step (Call_barrier # rest) c =
     (case mag_threadpool_barrier (cfg_pool c) of
        Blocked \<Rightarrow> None
      | Returned p \<Rightarrow> Some (c \<lparr> cfg_pool := p, cfg_main := rest \<rparr>))"

text \<open>
  One step of the thread of worker \<open>i\<close>: \<open>mag_worker_await_work\<close> when it can return, or
  \<open>mag_worker_exec_and_broadcast\<close> after it returned true.
\<close>

definition mag_worker_step :: "nat \<Rightarrow> mag_config \<Rightarrow> mag_config option" where
  "mag_worker_step i c =
     (if \<not> (i < length (cfg_threads c) \<and> i < length (workers (cfg_pool c)) \<and>
             is_async (workers (cfg_pool c) ! i)) then None
      else case cfg_threads c ! i of
        At_await_work \<Rightarrow>
          (case mag_worker_await_work i (cfg_pool c) of
             Blocked \<Rightarrow> None
           | Returned r \<Rightarrow>
               Some (c \<lparr> cfg_pool := snd r,
                         cfg_threads := (cfg_threads c)
                           [i := (if fst r then At_exec_and_broadcast else Thread_exited)] \<rparr>))
      | At_exec_and_broadcast \<Rightarrow>
          (let r = mag_worker_exec_and_broadcast i (cfg_pool c, cfg_calls c)
           in Some (c \<lparr> cfg_pool := fst r, cfg_calls := snd r,
                        cfg_threads := (cfg_threads c) [i := At_await_work] \<rparr>))
      | Thread_exited \<Rightarrow> None)"

text \<open>
  A schedule says who moves next: the library handing a node to \<open>mag_cpu_exec_fwd\<close> (when
  the calling thread has finished the previous node), the calling thread, or a worker
  thread. \<open>mag_run\<close> follows a schedule; it is \<open>None\<close> when the schedule asks for a step
  that cannot be taken.
\<close>

datatype mag_sched = Submit mag_tensor_t | Main_thread | Worker_thread nat

definition mag_step ::
  "mag_scaled_log2 \<Rightarrow> 'k mag_cpu_device_t \<Rightarrow> mag_sched \<Rightarrow> mag_config \<Rightarrow> mag_config option" where
  "mag_step fp dvc who c =
     (case who of
        Submit nd \<Rightarrow>
          (if cfg_main c \<noteq> [] then None
           else case mag_cpu_exec_fwd fp dvc nd of
                  Inl e \<Rightarrow> None
                | Inr calls \<Rightarrow> Some (c \<lparr> cfg_main := calls \<rparr>))
      | Main_thread \<Rightarrow> mag_main_step (cfg_main c) c
      | Worker_thread i \<Rightarrow> mag_worker_step i c)"

fun mag_run ::
  "mag_scaled_log2 \<Rightarrow> 'k mag_cpu_device_t \<Rightarrow> mag_sched list \<Rightarrow> mag_config \<Rightarrow>
   mag_config option" where
  "mag_run fp dvc [] c = Some c"
| "mag_run fp dvc (who # sched) c =
     (case mag_step fp dvc who c of None \<Rightarrow> None | Some c' \<Rightarrow> mag_run fp dvc sched c')"


section \<open>The invariant of the pool\<close>

text \<open>
  What holds in every configuration that the pool reaches after \<open>mag_threadpool_create\<close>,
  as long as it is not destroyed. \<open>pool_wf\<close>: the worker array and the thread table have
  one entry per allocated worker, there are at least two, the interrupt flag is off, worker 0
  alone has no thread, no thread has exited, and the phase of worker 0 is 0.
  \<open>signalled\<close> are the threads that have woken up for the present phase and have counted
  themselves. The pool is \<open>quiescent\<close> when every thread waits with the phase of the
  pool, and \<open>running m\<close> when the completion counter is the number of signalled threads
  plus \<open>m\<close> (1 once the calling thread has counted itself) and every thread on its way to
  \<open>mag_worker_exec_and_broadcast\<close> has the phase of the pool.
\<close>

definition pool_wf :: "mag_config \<Rightarrow> bool" where
  "pool_wf c \<longleftrightarrow>
     (let pool = cfg_pool c; n = unat (num_allocated_workers pool) in
      length (workers pool) = n \<and> length (cfg_threads c) = n \<and> 2 \<le> n \<and>
      \<not> interrupt pool \<and>
      (\<forall>i < n. is_async (workers pool ! i) \<longleftrightarrow> i \<noteq> 0) \<and>
      (\<forall>i < n. cfg_threads c ! i \<noteq> Thread_exited) \<and>
      worker_phase (workers pool ! 0) = 0)"

definition signalled :: "mag_config \<Rightarrow> nat set" where
  "signalled c =
     {i. 0 < i \<and> i < length (workers (cfg_pool c)) \<and> cfg_threads c ! i = At_await_work \<and>
         worker_phase (workers (cfg_pool c) ! i) = phase (cfg_pool c)}"

definition quiescent :: "mag_config \<Rightarrow> bool" where
  "quiescent c \<longleftrightarrow>
     (\<forall>i. 0 < i \<and> i < length (workers (cfg_pool c)) \<longrightarrow>
        cfg_threads c ! i = At_await_work \<and>
        worker_phase (workers (cfg_pool c) ! i) = phase (cfg_pool c))"

definition running :: "nat \<Rightarrow> mag_config \<Rightarrow> bool" where
  "running m c \<longleftrightarrow>
     num_completed (cfg_pool c) = of_nat (card (signalled c) + m) \<and>
     (\<forall>i. 0 < i \<and> i < length (workers (cfg_pool c)) \<and>
          cfg_threads c ! i = At_exec_and_broadcast \<longrightarrow>
          worker_phase (workers (cfg_pool c) ! i) = phase (cfg_pool c))"

definition pool_inv :: "mag_config \<Rightarrow> bool" where
  "pool_inv c \<longleftrightarrow>
     pool_wf c \<and>
     ((quiescent c \<and>
        (cfg_main c = [] \<or> (\<exists>pl. cfg_main c = [Call_exec_thread_local pl]) \<or>
         (\<exists>nd k. cfg_main c = [Call_kickoff nd k, Call_cv_broadcast,
                                 Call_exec_and_broadcast 0, Call_barrier]))) \<or>
      (running 0 c \<and>
        (cfg_main c = [Call_cv_broadcast, Call_exec_and_broadcast 0, Call_barrier] \<or>
         cfg_main c = [Call_exec_and_broadcast 0, Call_barrier])) \<or>
      (running 1 c \<and> cfg_main c = [Call_barrier]))"


section \<open>Concrete inputs\<close>

text \<open>
  A host whose context lists the features 1 and 2, a table in which the first entry asks for
  features the host lacks, the second has no feature list, the third an empty one, and the
  fourth asks for feature 1. The registry is the name of what was installed last.
\<close>

definition host_has :: "nat list \<Rightarrow> nat \<Rightarrow> bool" where
  "host_has ctx f = (f \<in> set ctx)"

definition specs4 :: "(nat, string) mag_amd64_blas_specialization list" where
  "specs4 = mag_amd64_blas_specializations
     (\<lambda>feat. if feat = ''avx512f'' then Some [5, 4] else if feat = ''avx2'' then None
              else if feat = ''avx'' then Some [] else Some [1])
     (\<lambda>feat k. feat)"

definition dvc4 :: "string mag_cpu_device_t" where
  "dvc4 = fst (mag_cpu_init_device True host_has (\<lambda>k. ''generic'') specs4 [] [1, 2] 4)"

definition dvc2 :: "string mag_cpu_device_t" where
  "dvc2 = fst (mag_cpu_init_device True host_has (\<lambda>k. ''generic'') specs4 [] [1, 2] 2)"

definition dvc1 :: "string mag_cpu_device_t" where
  "dvc1 = fst (mag_cpu_init_device True host_has (\<lambda>k. ''generic'') specs4 [] [1, 2] 1)"



text \<open>
  Values of the floating-point expression at the numbers used in the evaluations below. At
  \<open>2^20\<close> the logarithm is 20, the product with the growth scale rounds to 6 and the
  expression is 6. At 0 the logarithm is minus infinity and the expression is what the
  target's conversion makes of it: \<open>at_zero\<close>, which is 0 with the conversion of x86-64
  (\<open>cvttsd2si\<close>) and of AArch64, and \<open>2^32 - 1\<close> with a conversion that gives all ones
  for a value out of range (\<open>vcvttsd2usi\<close>). At 1 the logarithm and the expression are 0.
  The table is used at these three numbers only.
\<close>

definition fp_table :: "u32 \<Rightarrow> mag_scaled_log2" where
  "fp_table at_zero s d = (if d = 0 then at_zero else if d = 1048576 then 6 else 0)"

text \<open>
  Three nodes, one below the threshold, one at the threshold (a matrix of 500 by 500) and
  one with \<open>250000 + 2^20\<close> elements, and a
  schedule for one node on a pool of two workers: the node is handed in, the calling thread
  kicks off and broadcasts, worker 1 wakes up and runs its part, the calling thread runs
  the part of worker 0 and passes the barrier.
\<close>

definition nd_edge :: mag_tensor_t where
  "nd_edge = \<lparr> op = 0, numel = 250000 \<rparr>"

definition nd_big :: mag_tensor_t where
  "nd_big = \<lparr> op = 0, numel = 1298576 \<rparr>"

definition nd_small :: mag_tensor_t where
  "nd_small = \<lparr> op = 0, numel = 100 \<rparr>"

definition cycle2 :: "mag_sched list" where
  "cycle2 = [Submit nd_big, Main_thread, Main_thread, Worker_thread 1, Worker_thread 1,
             Main_thread, Main_thread]"


section \<open>Properties of the storage buffer\<close>

lemma assert_offs_ok:
  assumes "unat (b::u64) + unat (s::u64) < 2 ^ 64" and "unat (offs::u64) \<le> unat s"
  shows "b + offs \<le> b + s"
proof -
  have "unat (b + offs) = unat b + unat offs"
    using assms by (simp add: unat_add_lem [THEN iffD1])
  moreover have "unat (b + s) = unat b + unat s"
    using assms by (simp add: unat_add_lem [THEN iffD1])
  ultimately show ?thesis
    using assms by (simp add: word_le_nat_alt)
qed

lemma assert_offs_n_ok:
  assumes "unat (b::u64) + unat (s::u64) < 2 ^ 64" and "unat (offs::u64) + unat (n::u64) \<le> unat s"
  shows "b + offs + n \<le> b + s"
proof -
  have "unat (offs + n) = unat offs + unat n"
    using assms by (simp add: unat_add_lem [THEN iffD1])
  then have "unat (offs + n) \<le> unat s" using assms by simp
  then have "b + (offs + n) \<le> b + s" using assms(1) by (rule assert_offs_ok [rotated])
  then show ?thesis by (simp add: add.assoc)
qed

lemma unat_size_minus:
  assumes "unat (offs::u64) \<le> unat (s::u64)"
  shows "unat (s - offs) = unat s - unat offs"
  using assms by (simp add: unat_sub word_le_nat_alt)

text \<open>
  C4. For a descriptor with its block, an offset \<open>k\<close> up to the size and a byte \<open>b\<close>,
  \<open>mag_cpu_buf_set\<close> returns the block in which the bytes at the indices from \<open>k\<close> up to
  the size are all \<open>b\<close> and the bytes below \<open>k\<close> are as before. The number of bytes filled
  is the size minus \<open>k\<close>; the function has no length argument.
\<close>

theorem buf_set_fills:
  assumes "sto_block_ok sto mem" and "unat k \<le> unat (sto_size sto)"
  shows "\<exists>mem'. mag_cpu_buf_set sto mem k b = Inr mem' \<and>
           mem' = take (unat k) mem @ replicate (unat (sto_size sto) - unat k) b \<and>
           length mem' = length mem \<and>
           (\<forall>i. unat k \<le> i \<and> i < unat (sto_size sto) \<longrightarrow> mem' ! i = b) \<and>
           (\<forall>i. i < unat k \<longrightarrow> mem' ! i = mem ! i)"
proof -
  from assms have len: "length mem = unat (sto_size sto)"
    and addr: "unat (sto_base sto) + unat (sto_size sto) < 2 ^ 64"
    by (simp_all add: sto_block_ok_def)
  have a: "sto_base sto + k \<le> sto_base sto + sto_size sto"
    using addr assms(2) by (rule assert_offs_ok)
  have n: "unat (sto_size sto - k) = unat (sto_size sto) - unat k"
    using assms(2) by (rule unat_size_minus)
  define mem' where "mem' = take (unat k) mem @ replicate (unat (sto_size sto) - unat k) b"
  have r: "mag_cpu_buf_set sto mem k b = Inr mem'"
    using a n len assms(2) by (simp add: mag_cpu_buf_set_def memset_block_def mem'_def)
  have l: "length mem' = length mem"
    using len assms(2) by (simp add: mem'_def)
  have hi: "mem' ! i = b" if "unat k \<le> i" "i < unat (sto_size sto)" for i
    using that len by (simp add: mem'_def nth_append)
  have lo: "mem' ! i = mem ! i" if "i < unat k" for i
    using that len assms(2) by (simp add: mem'_def nth_append)
  show ?thesis using r l hi lo mem'_def by blast
qed

theorem buf_set_fills_witness:
  "sto_block_ok sto4 [1, 2, 3, 4] \<and> unat (1 :: u64) \<le> unat (sto_size sto4) \<and>
   mag_cpu_buf_set sto4 [1, 2, 3, 4] 1 171 = Inr [1, 171, 171, 171]"
proof -
  have h1: "sto_block_ok sto4 [1, 2, 3, 4]" by (simp add: sto_block_ok_def sto4_def)
  have h2: "unat (1 :: u64) \<le> unat (sto_size sto4)" by (simp add: sto4_def)
  from buf_set_fills [OF h1 h2, of 171] have "mag_cpu_buf_set sto4 [1, 2, 3, 4] 1 171 = Inr [1, 171, 171, 171]"
    by (auto simp add: sto4_def numeral_3_eq_3)
  with h1 h2 show ?thesis by simp
qed

text \<open>
  C5. For a descriptor with its block, an offset and a length \<open>n\<close> that stay inside the
  buffer, and a source array of \<open>n\<close> bytes: \<open>mag_cpu_buf_cpy_host_device\<close> followed by
  \<open>mag_cpu_buf_cpy_device_host\<close> at the same offset and length gives a destination whose
  first \<open>n\<close> bytes are the source. (The destination has room for \<open>n\<close> bytes.)
\<close>

theorem buf_copy_roundtrip:
  assumes "sto_block_ok sto mem" and "unat o' + unat n \<le> unat (sto_size sto)"
    and "length src = unat n" and "unat n \<le> length dst"
  shows "\<exists>mem' dst'. mag_cpu_buf_cpy_host_device sto mem o' src n = Inr mem' \<and>
           mag_cpu_buf_cpy_device_host sto mem' o' dst n = Inr dst' \<and>
           take (unat n) dst' = src \<and> (\<forall>i < unat n. dst' ! i = src ! i)"
proof -
  from assms have len: "length mem = unat (sto_size sto)"
    and addr: "unat (sto_base sto) + unat (sto_size sto) < 2 ^ 64"
    by (simp_all add: sto_block_ok_def)
  have a: "sto_base sto + o' + n \<le> sto_base sto + sto_size sto"
    using addr assms(2) by (rule assert_offs_n_ok)
  define mem' where "mem' = take (unat o') mem @ take (unat n) src @ drop (unat o' + unat n) mem"
  define dst' where "dst' = take (unat n) (drop (unat o') mem') @ drop (unat n) dst"
  have 1: "mag_cpu_buf_cpy_host_device sto mem o' src n = Inr mem'"
    using a len assms(2,3)
    by (simp add: mag_cpu_buf_cpy_host_device_def memcpy_to_block_def mem'_def)
  have l: "length mem' = length mem"
    using len assms(2,3) by (simp add: mem'_def)
  have 2: "mag_cpu_buf_cpy_device_host sto mem' o' dst n = Inr dst'"
    using a len l assms(2,4)
    by (simp add: mag_cpu_buf_cpy_device_host_def memcpy_from_block_def dst'_def)
  have rd: "take (unat n) (drop (unat o') mem') = src"
    using len assms(2,3) by (simp add: mem'_def)
  have 3: "take (unat n) dst' = src"
    using rd assms(3) by (simp add: dst'_def)
  have 4: "\<forall>i < unat n. dst' ! i = src ! i"
    using 3 by (metis nth_take)
  show ?thesis using 1 2 3 4 by blast
qed

theorem buf_copy_roundtrip_witness:
  "sto_block_ok sto4 [1, 2, 3, 4] \<and> unat (1 :: u64) + unat (2 :: u64) \<le> unat (sto_size sto4) \<and>
   (\<exists>mem'. mag_cpu_buf_cpy_host_device sto4 [1, 2, 3, 4] 1 [7, 8] 2 = Inr mem' \<and>
      mag_cpu_buf_cpy_device_host sto4 mem' 1 [0, 0, 0] 2 = Inr [7, 8, 0])"
proof -
  have h1: "sto_block_ok sto4 [1, 2, 3, 4]" by (simp add: sto_block_ok_def sto4_def)
  have h2: "unat (1 :: u64) + unat (2 :: u64) \<le> unat (sto_size sto4)" by (simp add: sto4_def)
  have h3: "length [7, 8 :: u8] = unat (2 :: u64)" by simp
  have h4: "unat (2 :: u64) \<le> length [0, 0, 0 :: u8]" by simp
  from buf_copy_roundtrip [OF h1 h2 h3 h4] obtain mem' dst' where
    a: "mag_cpu_buf_cpy_host_device sto4 [1, 2, 3, 4] 1 [7, 8] 2 = Inr mem'"
    and b: "mag_cpu_buf_cpy_device_host sto4 mem' 1 [0, 0, 0] 2 = Inr dst'"
    and c: "take (unat (2 :: u64)) dst' = [7, 8]" by blast
  from a have m: "mem' = [1, 7, 8, 4]"
    by (simp add: mag_cpu_buf_cpy_host_device_def memcpy_to_block_def sto4_def)
  from b m have "dst' = [7, 8, 0]"
    by (simp add: mag_cpu_buf_cpy_device_host_def memcpy_from_block_def sto4_def)
  with a b h1 h2 show ?thesis by simp
qed

text \<open>
  Each of the three operations tests its assertion before it touches memory: when the
  assertion of the source is false the result is the assertion failure, whatever the block
  holds. When the offset is at most the size (for \<open>set\<close>), or offset plus length is at most
  the size (for the two copies), the assertion holds and the failure branch is not taken.
\<close>

lemma buf_ops_assert_bounds:
  assumes "sto_block_ok sto mem"
  shows "(\<not> (sto_base sto + offs \<le> sto_base sto + sto_size sto) \<longrightarrow>
            mag_cpu_buf_set sto mem offs x = Inl Assert_failed) \<and>
         (\<not> (sto_base sto + offs + n \<le> sto_base sto + sto_size sto) \<longrightarrow>
            mag_cpu_buf_cpy_host_device sto mem offs src n = Inl Assert_failed \<and>
            mag_cpu_buf_cpy_device_host sto mem offs dst n = Inl Assert_failed) \<and>
         (unat offs \<le> unat (sto_size sto) \<longrightarrow>
            mag_cpu_buf_set sto mem offs x \<noteq> Inl Assert_failed) \<and>
         (unat offs + unat n \<le> unat (sto_size sto) \<longrightarrow>
            mag_cpu_buf_cpy_host_device sto mem offs src n \<noteq> Inl Assert_failed \<and>
            mag_cpu_buf_cpy_device_host sto mem offs dst n \<noteq> Inl Assert_failed)"
proof -
  from assms have addr: "unat (sto_base sto) + unat (sto_size sto) < 2 ^ 64"
    by (simp add: sto_block_ok_def)
  have 1: "\<not> (sto_base sto + offs \<le> sto_base sto + sto_size sto) \<longrightarrow>
            mag_cpu_buf_set sto mem offs x = Inl Assert_failed"
    by (simp add: mag_cpu_buf_set_def)
  have 2: "\<not> (sto_base sto + offs + n \<le> sto_base sto + sto_size sto) \<longrightarrow>
            mag_cpu_buf_cpy_host_device sto mem offs src n = Inl Assert_failed \<and>
            mag_cpu_buf_cpy_device_host sto mem offs dst n = Inl Assert_failed"
    by (simp add: mag_cpu_buf_cpy_host_device_def mag_cpu_buf_cpy_device_host_def)
  have 3: "mag_cpu_buf_set sto mem offs x \<noteq> Inl Assert_failed"
    if "unat offs \<le> unat (sto_size sto)"
    using assert_offs_ok [OF addr that]
    by (simp add: mag_cpu_buf_set_def memset_block_def)
  have 4: "mag_cpu_buf_cpy_host_device sto mem offs src n \<noteq> Inl Assert_failed \<and>
           mag_cpu_buf_cpy_device_host sto mem offs dst n \<noteq> Inl Assert_failed"
    if "unat offs + unat n \<le> unat (sto_size sto)"
    using assert_offs_n_ok [OF addr that]
    by (simp add: mag_cpu_buf_cpy_host_device_def mag_cpu_buf_cpy_device_host_def
        memcpy_to_block_def memcpy_from_block_def)
  show ?thesis using 1 2 3 4 by blast
qed

text \<open>
  C6. The assertions compare addresses, \<open>sto->base+offs <= sto->base+sto->size\<close>, and the
  sum on the left wraps around. On a buffer of four bytes at address 4096, the offset
  \<open>2^64 - 1\<close> is above the size and passes the assertion of \<open>mag_cpu_buf_set\<close>, and the
  offset \<open>2^64 - 2\<close> with length 4 exceeds the size and passes the assertion of both
  copies: none of the three calls ends in the assertion failure, each goes on to
  \<open>memset\<close> or \<open>memcpy\<close> at an address before the block.
\<close>

theorem buf_assert_wraps_around:
  "\<not> unat (18446744073709551615 :: u64) \<le> unat (sto_size sto4) \<and>
   mag_cpu_buf_set sto4 [1, 2, 3, 4] 18446744073709551615 0 = Inl Out_of_bounds \<and>
   \<not> unat (18446744073709551614 :: u64) + unat (4 :: u64) \<le> unat (sto_size sto4) \<and>
   mag_cpu_buf_cpy_host_device sto4 [1, 2, 3, 4] 18446744073709551614 [7, 8, 9, 10] 4 =
     Inl Out_of_bounds \<and>
   mag_cpu_buf_cpy_device_host sto4 [1, 2, 3, 4] 18446744073709551614 [0, 0, 0, 0] 4 =
     Inl Out_of_bounds"
  by (simp add: mag_cpu_buf_set_def mag_cpu_buf_cpy_host_device_def
      mag_cpu_buf_cpy_device_host_def memset_block_def memcpy_to_block_def
      memcpy_from_block_def sto4_def)

text \<open>
  C10. \<open>mag_cpu_alloc_storage\<close> with size 0 stops at its assertion. With any other size
  it returns a descriptor with that size, alignment 16, the block of the allocator as base,
  and the three function pointers set.
\<close>

theorem alloc_storage_descriptor:
  "mag_cpu_alloc_storage alloc host 0 = Inl Assert_failed \<and>
   (sz \<noteq> 0 \<longrightarrow>
     (\<exists>sto. mag_cpu_alloc_storage alloc host sz = Inr sto \<and>
        sto_size sto = sz \<and> sto_alignment sto = 16 \<and> sto_base sto = alloc sz 16 \<and>
        sto_set sto \<noteq> None \<and> sto_cpy_host_device sto \<noteq> None \<and>
        sto_cpy_device_host sto \<noteq> None))"
  by (simp add: mag_cpu_alloc_storage_def Let_def)

theorem alloc_storage_descriptor_witness:
  "(4 :: u64) \<noteq> 0 \<and> mag_cpu_alloc_storage (\<lambda>sz al. 4096) () 4 = Inr sto4 \<and>
   mag_cpu_alloc_storage (\<lambda>sz al. 4096) () 0 = (Inl Assert_failed :: mag_fault + unit mag_storage_buffer_t)"
proof -
  have h: "(4 :: u64) \<noteq> 0" by simp
  from alloc_storage_descriptor [of "\<lambda>sz al. 4096" "()" 4] h
  obtain sto where a: "mag_cpu_alloc_storage (\<lambda>sz al. 4096) () 4 = Inr sto"
    and z: "mag_cpu_alloc_storage (\<lambda>sz al. 4096) () 0 = (Inl Assert_failed :: mag_fault + unit mag_storage_buffer_t)"
    by blast
  from a have "sto = sto4" by (simp add: mag_cpu_alloc_storage_def sto4_def Let_def)
  with a z h show ?thesis by simp
qed



section \<open>Properties of the feature gate\<close>

lemma has_all_features_loop_eq:
  "has_all_features_loop has fs acc \<longleftrightarrow> acc \<and> list_all has fs"
  by (induction fs arbitrary: acc) auto

lemma amd64_detect_eq_select_spec:
  "mag_amd64_blas_detect_optimal_specialization has fb specs ctx k =
     select_spec (has ctx) fb specs k"
proof (induction specs)
  case Nil
  show ?case by (simp add: select_spec_def)
next
  case (Cons spec specs)
  show ?case
  proof (cases "spec_eligible (has ctx) spec")
    case True
    then show ?thesis
      by (auto simp: select_spec_def spec_eligible_def has_all_features_loop_eq
          split: option.splits)
  next
    case False
    then have "mag_amd64_blas_detect_optimal_specialization has fb (spec # specs) ctx k =
               mag_amd64_blas_detect_optimal_specialization has fb specs ctx k"
      by (auto simp: spec_eligible_def has_all_features_loop_eq split: option.splits)
    moreover from False have "select_spec (has ctx) fb (spec # specs) k = select_spec (has ctx) fb specs k"
      by (simp add: select_spec_def)
    ultimately show ?thesis using Cons.IH by simp
  qed
qed

lemma select_spec_one_installer:
  "length (filter is_installer_call (snd (snd (select_spec host fb specs k)))) = 1"
  by (simp add: select_spec_def is_installer_call_def split: option.splits)

text \<open>
  C7. On x86-64 the selector returns what \<open>select_spec\<close> describes: it goes through the
  table in its order, passes over the entries without a feature list or with an empty one and
  over those asking for a feature the host lacks, installs the first remaining one and logs
  it, and installs the generic kernels when none remains. On other targets it installs the
  generic kernels. In each case the events hold one installer call, and
  \<open>mag_cpu_init_device\<close> runs the selector once, on the registry of the new device.
\<close>

theorem blas_detect_first_eligible:
  "mag_blas_detect_optimal_specialization x86_64 has fb specs ctx k =
     (if x86_64 then select_spec (has ctx) fb specs k else (False, fb k, [Fallback_kernels])) \<and>
   length (filter is_installer_call
     (snd (snd (mag_blas_detect_optimal_specialization x86_64 has fb specs ctx k)))) = 1 \<and>
   snd (mag_cpu_init_device x86_64 has fb specs k ctx num_threads) =
     snd (snd (mag_blas_detect_optimal_specialization x86_64 has fb specs ctx k)) \<and>
   dvc_kernels (fst (mag_cpu_init_device x86_64 has fb specs k ctx num_threads)) =
     fst (snd (mag_blas_detect_optimal_specialization x86_64 has fb specs ctx k))"
proof -
  have 1: "mag_blas_detect_optimal_specialization x86_64 has fb specs ctx k =
     (if x86_64 then select_spec (has ctx) fb specs k else (False, fb k, [Fallback_kernels]))"
    by (simp add: mag_blas_detect_optimal_specialization_def amd64_detect_eq_select_spec)
  have 2: "length (filter is_installer_call
     (snd (snd (mag_blas_detect_optimal_specialization x86_64 has fb specs ctx k)))) = 1"
    unfolding 1 by (simp add: select_spec_one_installer is_installer_call_def)
  have 3: "snd (mag_cpu_init_device x86_64 has fb specs k ctx num_threads) =
     snd (snd (mag_blas_detect_optimal_specialization x86_64 has fb specs ctx k))"
    by (simp add: mag_cpu_init_device_def Let_def)
  have 4: "dvc_kernels (fst (mag_cpu_init_device x86_64 has fb specs k ctx num_threads)) =
     fst (snd (mag_blas_detect_optimal_specialization x86_64 has fb specs ctx k))"
    by (simp add: mag_cpu_init_device_def Let_def)
  show ?thesis using 1 2 3 4 by blast
qed

lemma specs4_unfold:
  "specs4 =
     [\<lparr> name = ''amd64_avx512f'', get_feature_permutation = Some [5, 4], inject_kernels = (\<lambda>k. ''avx512f'') \<rparr>,
      \<lparr> name = ''amd64_avx2'', get_feature_permutation = None, inject_kernels = (\<lambda>k. ''avx2'') \<rparr>,
      \<lparr> name = ''amd64_avx'', get_feature_permutation = Some [], inject_kernels = (\<lambda>k. ''avx'') \<rparr>,
      \<lparr> name = ''amd64_sse41'', get_feature_permutation = Some [1], inject_kernels = (\<lambda>k. ''sse41'') \<rparr>]"
  by (simp add: specs4_def mag_amd64_blas_specializations_def mag_amd64_blas_spec_permute_def)

theorem blas_detect_first_eligible_witness:
  "mag_blas_detect_optimal_specialization True host_has (\<lambda>k. ''generic'') specs4 [1, 2] [] =
     (True, ''sse41'', [Inject_kernels ''amd64_sse41'',
                        Log_info ''Using BLAS specialization: amd64_sse41'']) \<and>
   mag_blas_detect_optimal_specialization True host_has (\<lambda>k. ''generic'') specs4 [2] [] =
     (False, ''generic'', [Fallback_kernels]) \<and>
   mag_blas_detect_optimal_specialization False host_has (\<lambda>k. ''generic'') specs4 [1, 2] [] =
     (False, ''generic'', [Fallback_kernels])"
proof -
  have a: "select_spec (host_has [1, 2]) (\<lambda>k. ''generic'') specs4 [] =
     (True, ''sse41'', [Inject_kernels ''amd64_sse41'',
                        Log_info ''Using BLAS specialization: amd64_sse41''])"
    by (simp add: specs4_unfold select_spec_def spec_eligible_def host_has_def)
  have b: "select_spec (host_has [2]) (\<lambda>k. ''generic'') specs4 [] =
     (False, ''generic'', [Fallback_kernels])"
    by (simp add: specs4_unfold select_spec_def spec_eligible_def host_has_def)
  from blas_detect_first_eligible [of True host_has "\<lambda>k. ''generic''" specs4 "[1, 2]" "[]"] a
  have 1: "mag_blas_detect_optimal_specialization True host_has (\<lambda>k. ''generic'') specs4 [1, 2] [] =
     (True, ''sse41'', [Inject_kernels ''amd64_sse41'',
                        Log_info ''Using BLAS specialization: amd64_sse41''])" by simp
  from blas_detect_first_eligible [of True host_has "\<lambda>k. ''generic''" specs4 "[2]" "[]"] b
  have 2: "mag_blas_detect_optimal_specialization True host_has (\<lambda>k. ''generic'') specs4 [2] [] =
     (False, ''generic'', [Fallback_kernels])" by simp
  from blas_detect_first_eligible [of False host_has "\<lambda>k. ''generic''" specs4 "[1, 2]" "[]"]
  have 3: "mag_blas_detect_optimal_specialization False host_has (\<lambda>k. ''generic'') specs4 [1, 2] [] =
     (False, ''generic'', [Fallback_kernels])" by simp
  show ?thesis using 1 2 3 by blast
qed



section \<open>Properties of the dynamic width heuristic\<close>

lemma init_device_fields:
  "growth_scale (fst (mag_cpu_init_device x86 has fb specs k0 ctx nt)) = double_0_3"
  "numel_threshold (fst (mag_cpu_init_device x86 has fb specs k0 ctx nt)) = 250000"
  "dvc_pool (fst (mag_cpu_init_device x86 has fb specs k0 ctx nt)) =
     (if nt > 1 then Some (mag_threadpool_create nt) else None)"
  "dvc_num_allocated_workers (fst (mag_cpu_init_device x86 has fb specs k0 ctx nt)) =
     (if nt > 1 then nt else 0)"
  by (simp_all add: mag_cpu_init_device_def Let_def)

lemma dvc_fields:
  "growth_scale dvc4 = double_0_3" "numel_threshold dvc4 = 250000"
  "dvc_pool dvc4 = Some (mag_threadpool_create 4)" "dvc_num_allocated_workers dvc4 = 4"
  "growth_scale dvc2 = double_0_3" "numel_threshold dvc2 = 250000"
  "dvc_pool dvc2 = Some (mag_threadpool_create 2)" "dvc_num_allocated_workers dvc2 = 2"
  "growth_scale dvc1 = double_0_3" "numel_threshold dvc1 = 250000"
  "dvc_pool dvc1 = None" "dvc_num_allocated_workers dvc1 = 0"
  by (simp_all add: dvc4_def dvc2_def dvc1_def init_device_fields)

lemma sint_diff_in_range:
  fixes n t :: u64
  assumes "sint t \<le> sint n" and "sint n - sint t < 2 ^ 63"
  shows "sint (n - t) = sint n - sint t"
proof -
  have "signed_take_bit 63 (sint n - sint t) = sint n - sint t"
    using assms by (intro signed_take_bit_int_eq_self) simp_all
  then show ?thesis by (simp add: sint_word_diff)
qed

lemma sint_minus_threshold:
  fixes n :: u64
  assumes "250000 \<le> sint n"
  shows "sint (n - 250000) = sint n - 250000"
proof -
  have "sint n < 2 ^ 63" using sint_lt [of n] by simp
  then show ?thesis using sint_diff_in_range [of 250000 n] assms by simp
qed





text \<open>
  With a pool and an element count that is not below the threshold, the heuristic is the
  clamp of what the floating-point expression yields at the count minus the threshold.
  Without a pool, or below the threshold, it is 1.
\<close>

lemma scaling_eq_clamp:
  assumes "dvc_pool dvc \<noteq> None" and "\<not> sint n < sint (numel_threshold dvc)"
  shows "mag_cpu_dynamic_work_scaling fp dvc n =
           mag_xmin (dvc_num_allocated_workers dvc)
             (mag_xmax 1 (fp (growth_scale dvc) (sint (n - numel_threshold dvc))))"
  using assms by (auto simp: mag_cpu_dynamic_work_scaling_def Let_def)

lemma scaling_below_threshold:
  assumes "dvc_pool dvc = None \<or> sint n < sint (numel_threshold dvc)"
  shows "mag_cpu_dynamic_work_scaling fp dvc n = 1"
  using assms by (auto simp: mag_cpu_dynamic_work_scaling_def)

lemma scaling_init_device:
  assumes "1 < nt" and "250000 \<le> sint n"
  shows "mag_cpu_dynamic_work_scaling fp (fst (mag_cpu_init_device x86 has fb specs k0 ctx nt)) n =
           mag_xmin nt (mag_xmax 1 (fp double_0_3 (sint n - 250000)))"
proof -
  let ?dvc = "fst (mag_cpu_init_device x86 has fb specs k0 ctx nt)"
  have "mag_cpu_dynamic_work_scaling fp ?dvc n =
          mag_xmin (dvc_num_allocated_workers ?dvc)
            (mag_xmax 1 (fp (growth_scale ?dvc) (sint (n - numel_threshold ?dvc))))"
    using assms by (intro scaling_eq_clamp) (simp_all add: init_device_fields)
  then show ?thesis
    using assms by (simp add: init_device_fields sint_minus_threshold)
qed

lemma scaling_dvc4: "250000 \<le> sint n \<Longrightarrow>
    mag_cpu_dynamic_work_scaling fp dvc4 n = mag_xmin 4 (mag_xmax 1 (fp double_0_3 (sint n - 250000)))"
  unfolding dvc4_def by (rule scaling_init_device) simp_all

lemma scaling_dvc2: "250000 \<le> sint n \<Longrightarrow>
    mag_cpu_dynamic_work_scaling fp dvc2 n = mag_xmin 2 (mag_xmax 1 (fp double_0_3 (sint n - 250000)))"
  unfolding dvc2_def by (rule scaling_init_device) simp_all

lemma scaling_values:
  "mag_cpu_dynamic_work_scaling (fp_table 0) dvc4 250000 = 1"
  "mag_cpu_dynamic_work_scaling (fp_table 4294967295) dvc4 250000 = 4"
  "mag_cpu_dynamic_work_scaling (fp_table 4294967295) dvc4 250001 = 1"
  "mag_cpu_dynamic_work_scaling (fp_table 0) dvc4 1298576 = 4"
  "mag_cpu_dynamic_work_scaling (fp_table 0) dvc2 250000 = 1"
  "mag_cpu_dynamic_work_scaling (fp_table 0) dvc2 1298576 = 2"
  by (simp_all add: scaling_dvc4 scaling_dvc2 fp_table_def mag_xmin_def mag_xmax_def
      word_less_nat_alt)







text \<open>
  Whether the floating-point expression itself keeps the order of the element counts is a
  matter of the C library and of the conversion. With a conversion that gives all ones for
  minus infinity it does not at the threshold, and then neither does the heuristic: the
  width is 4 at 250000 elements and 1 at 250001.
\<close>

lemma work_scaling_drop_after_threshold:
  "mag_cpu_dynamic_work_scaling (fp_table 4294967295) dvc4 250000 = 4 \<and>
   mag_cpu_dynamic_work_scaling (fp_table 4294967295) dvc4 250001 = 1"
  by (simp add: scaling_values)


section \<open>Properties of the dispatch and of the pool\<close>

text \<open>
  C8. For every node, with \<open>k\<close> the value of the heuristic at the element count of the
  node: if the device has no pool or \<open>k\<close> is at most 1, \<open>mag_cpu_exec_fwd\<close> makes one call,
  the kernel on the calling thread with the payload of the node, thread index 0 and thread
  count 1, and is done; the pool is not touched. Otherwise it makes the calls kickoff with
  the node and \<open>k\<close>, broadcast, the path of worker 0, and barrier; after the first three
  the pool is the one left by kickoff and the path of worker 0, and the barrier is what
  remains to be done.
\<close>

theorem exec_fwd_dispatch:
  assumes "k = mag_cpu_dynamic_work_scaling fp dvc (numel nd)" and "cfg_main c = []"
  shows "if dvc_pool dvc = None \<or> k \<le> 1
         then mag_cpu_exec_fwd fp dvc nd =
                Inr [Call_exec_thread_local \<lparr> node = Some nd, thread_idx = 0, thread_num = 1 \<rparr>] \<and>
              mag_run fp dvc [Submit nd, Main_thread] c =
                Some (c \<lparr> cfg_calls := cfg_calls c @
                             [\<lparr> node = Some nd, thread_idx = 0, thread_num = 1 \<rparr>] \<rparr>)
         else mag_cpu_exec_fwd fp dvc nd =
                Inr [Call_kickoff nd k, Call_cv_broadcast, Call_exec_and_broadcast 0, Call_barrier] \<and>
              mag_run fp dvc [Submit nd, Main_thread, Main_thread, Main_thread] c =
                Some (c \<lparr> cfg_pool := fst (mag_worker_exec_and_broadcast 0
                                            (mag_threadpool_kickoff (cfg_pool c) nd k, cfg_calls c)),
                          cfg_calls := snd (mag_worker_exec_and_broadcast 0
                                            (mag_threadpool_kickoff (cfg_pool c) nd k, cfg_calls c)),
                          cfg_main := [Call_barrier] \<rparr>)"
proof (cases "dvc_pool dvc = None \<or> k \<le> 1")
  case True
  then have e: "mag_cpu_exec_fwd fp dvc nd =
      Inr [Call_exec_thread_local \<lparr> node = Some nd, thread_idx = 0, thread_num = 1 \<rparr>]"
    using assms(1) by (simp add: mag_cpu_exec_fwd_def Let_def)
  have "mag_run fp dvc [Submit nd, Main_thread] c =
      Some (c \<lparr> cfg_calls := cfg_calls c @
                 [\<lparr> node = Some nd, thread_idx = 0, thread_num = 1 \<rparr>] \<rparr>)"
    using assms(2) e by (simp add: mag_step_def mag_worker_exec_thread_local_def)
  with e True show ?thesis by simp
next
  case False
  then obtain p where p: "dvc_pool dvc = Some p" by auto
  from False have e: "mag_cpu_exec_fwd fp dvc nd =
      Inr [Call_kickoff nd k, Call_cv_broadcast, Call_exec_and_broadcast 0, Call_barrier]"
    using assms(1) p
    by (simp add: mag_cpu_exec_fwd_def mag_threadpool_parallel_compute_def Let_def)
  have "mag_run fp dvc [Submit nd, Main_thread, Main_thread, Main_thread] c =
      Some (c \<lparr> cfg_pool := fst (mag_worker_exec_and_broadcast 0
                                  (mag_threadpool_kickoff (cfg_pool c) nd k, cfg_calls c)),
                cfg_calls := snd (mag_worker_exec_and_broadcast 0
                                  (mag_threadpool_kickoff (cfg_pool c) nd k, cfg_calls c)),
                cfg_main := [Call_barrier] \<rparr>)"
    using assms(2) e by (simp add: mag_step_def Let_def)
  with e False show ?thesis by simp
qed

theorem exec_fwd_dispatch_witness:
  "mag_cpu_exec_fwd (fp_table 0) dvc4 nd_big =
     Inr [Call_kickoff nd_big 4, Call_cv_broadcast, Call_exec_and_broadcast 0, Call_barrier] \<and>
   mag_cpu_exec_fwd (fp_table 0) dvc4 nd_small =
     Inr [Call_exec_thread_local \<lparr> node = Some nd_small, thread_idx = 0, thread_num = 1 \<rparr>] \<and>
   mag_cpu_exec_fwd (fp_table 0) dvc4 nd_edge =
     Inr [Call_exec_thread_local \<lparr> node = Some nd_edge, thread_idx = 0, thread_num = 1 \<rparr>] \<and>
   mag_cpu_exec_fwd (fp_table 0) dvc1 nd_big =
     Inr [Call_exec_thread_local \<lparr> node = Some nd_big, thread_idx = 0, thread_num = 1 \<rparr>]"
proof -
  let ?c = "mag_config_init (mag_threadpool_create 4)"
  have m: "cfg_main ?c = []" by (simp add: mag_config_init_def)
  have a: "4 = mag_cpu_dynamic_work_scaling (fp_table 0) dvc4 (numel nd_big)"
    by (simp add: nd_big_def scaling_values)
  have b: "1 = mag_cpu_dynamic_work_scaling (fp_table 0) dvc4 (numel nd_small)"
    by (rule scaling_below_threshold [symmetric]) (simp add: nd_small_def dvc_fields)
  have e: "1 = mag_cpu_dynamic_work_scaling (fp_table 0) dvc4 (numel nd_edge)"
    by (simp add: nd_edge_def scaling_values)
  have c: "1 = mag_cpu_dynamic_work_scaling (fp_table 0) dvc1 (numel nd_big)"
    by (rule scaling_below_threshold [symmetric]) (simp add: dvc_fields)
  from exec_fwd_dispatch [OF a m] have 1: "mag_cpu_exec_fwd (fp_table 0) dvc4 nd_big =
     Inr [Call_kickoff nd_big 4, Call_cv_broadcast, Call_exec_and_broadcast 0, Call_barrier]"
    by (simp add: dvc_fields word_le_nat_alt)
  from exec_fwd_dispatch [OF b m] have 2: "mag_cpu_exec_fwd (fp_table 0) dvc4 nd_small =
     Inr [Call_exec_thread_local \<lparr> node = Some nd_small, thread_idx = 0, thread_num = 1 \<rparr>]"
    by (simp add: dvc_fields)
  from exec_fwd_dispatch [OF e m] have 3: "mag_cpu_exec_fwd (fp_table 0) dvc4 nd_edge =
     Inr [Call_exec_thread_local \<lparr> node = Some nd_edge, thread_idx = 0, thread_num = 1 \<rparr>]"
    by (simp add: dvc_fields)
  from exec_fwd_dispatch [OF c m] have 4: "mag_cpu_exec_fwd (fp_table 0) dvc1 nd_big =
     Inr [Call_exec_thread_local \<lparr> node = Some nd_big, thread_idx = 0, thread_num = 1 \<rparr>]"
    by (simp add: dvc_fields)
  show ?thesis using 1 2 3 4 by blast
qed

text \<open>
  C9. For every device and every root node \<open>mag_cpu_exec_bwd\<close> ends in a panic with the
  message \<open>NYI\<close>: it returns no device state, changed or unchanged.
\<close>

theorem exec_bwd_refuses:
  "mag_cpu_exec_bwd dvc root_node = Inl (Panic ''NYI'') \<and>
   (\<nexists>dvc'. mag_cpu_exec_bwd dvc root_node = Inr dvc')"
  by (simp add: mag_cpu_exec_bwd_def)

text \<open>
  The operations of the pool, field by field.
\<close>

lemma nth_map_take_drop:
  "i < length ws \<Longrightarrow> (map f (take n ws) @ drop n ws) ! i = (if i < n then f (ws ! i) else ws ! i)"
  by (simp add: nth_append)

lemma kickoff_fields:
  "phase (mag_threadpool_kickoff p nd k) = phase p + 1"
  "num_completed (mag_threadpool_kickoff p nd k) = 0"
  "num_allocated_workers (mag_threadpool_kickoff p nd k) = num_allocated_workers p"
  "interrupt (mag_threadpool_kickoff p nd k) = interrupt p"
  "length (workers (mag_threadpool_kickoff p nd k)) = length (workers p)"
  by (simp_all add: mag_threadpool_kickoff_def Let_def)

lemma kickoff_worker:
  assumes "i < length (workers p)"
  shows "worker_phase (workers (mag_threadpool_kickoff p nd k) ! i) = worker_phase (workers p ! i)"
    and "is_async (workers (mag_threadpool_kickoff p nd k) ! i) = is_async (workers p ! i)"
  using assms by (simp_all add: mag_threadpool_kickoff_def Let_def nth_map_take_drop)

lemma exec_fields:
  "phase (fst (mag_worker_exec_and_broadcast i (p, cs))) = phase p"
  "num_completed (fst (mag_worker_exec_and_broadcast i (p, cs))) = num_completed p + 1"
  "num_allocated_workers (fst (mag_worker_exec_and_broadcast i (p, cs))) = num_allocated_workers p"
  "interrupt (fst (mag_worker_exec_and_broadcast i (p, cs))) = interrupt p"
  "length (workers (fst (mag_worker_exec_and_broadcast i (p, cs)))) = length (workers p)"
  by (simp_all add: mag_worker_exec_and_broadcast_def Let_def)

lemma exec_worker:
  assumes "j < length (workers p)"
  shows "worker_phase (workers (fst (mag_worker_exec_and_broadcast i (p, cs))) ! j) =
           worker_phase (workers p ! j)"
    and "is_async (workers (fst (mag_worker_exec_and_broadcast i (p, cs))) ! j) =
           is_async (workers p ! j)"
  using assms by (cases "i = j"; simp add: mag_worker_exec_and_broadcast_def Let_def)+

text \<open>
  Each step of a worker thread and of the calling thread keeps the invariant.
\<close>

lemma await_not_interrupted:
  assumes "\<not> interrupt p"
  shows "mag_worker_await_work i p =
           (if worker_phase (workers p ! i) < phase p
            then Returned (True, p \<lparr> workers := (workers p)
                     [i := (workers p ! i) \<lparr> worker_phase := phase p \<rparr>] \<rparr>)
            else Blocked)"
  using assms by (simp add: mag_worker_await_work_def Let_def)

lemma signalled_finite: "finite (signalled c)"
proof -
  have "signalled c \<subseteq> {..< length (workers (cfg_pool c))}"
    by (auto simp: signalled_def)
  then show ?thesis by (rule finite_subset) simp
qed

lemma signalled_card_le:
  assumes "0 < length (workers (cfg_pool c))"
  shows "card (signalled c) \<le> length (workers (cfg_pool c)) - 1"
proof -
  have "signalled c \<subseteq> {1 ..< length (workers (cfg_pool c))}"
    by (auto simp: signalled_def)
  then have "card (signalled c) \<le> card {1 ..< length (workers (cfg_pool c))}"
    by (intro card_mono) simp_all
  then show ?thesis by simp
qed

lemma worker_wake_inv:
  assumes inv: "pool_inv c" and i: "i < length (workers (cfg_pool c))" "i \<noteq> 0"
    and pc: "cfg_threads c ! i = At_await_work"
    and lt: "worker_phase (workers (cfg_pool c) ! i) < phase (cfg_pool c)"
    and c': "c' = c \<lparr> cfg_pool := (cfg_pool c) \<lparr> workers := (workers (cfg_pool c))
                     [i := (workers (cfg_pool c) ! i) \<lparr> worker_phase := phase (cfg_pool c) \<rparr>] \<rparr>,
                   cfg_threads := (cfg_threads c) [i := At_exec_and_broadcast] \<rparr>"
  shows "pool_inv c'"
proof -
  from inv have wf: "pool_wf c" by (simp add: pool_inv_def)
  from lt have ne: "worker_phase (workers (cfg_pool c) ! i) \<noteq> phase (cfg_pool c)" by auto
  have nq: "\<not> quiescent c" using ne i by (auto simp: quiescent_def)
  have len: "length (cfg_threads c) = length (workers (cfg_pool c))"
    using wf by (simp add: pool_wf_def Let_def)
  have wf': "pool_wf c'"
    using wf i unfolding c' pool_wf_def Let_def
    by (auto simp: nth_list_update)
  have sg: "signalled c' = signalled c"
    using ne pc i len unfolding c' signalled_def
    by (auto simp: nth_list_update split: if_splits)
  have run: "running m c'" if "running m c" for m
    using that wf i unfolding running_def sg unfolding c' pool_wf_def Let_def
    by (auto simp: nth_list_update split: if_splits)
  have main: "cfg_main c' = cfg_main c" by (simp add: c')
  show ?thesis
    using inv nq wf' run unfolding pool_inv_def main by blast
qed

lemma worker_exec_inv:
  assumes inv: "pool_inv c" and i: "i < length (workers (cfg_pool c))" "i \<noteq> 0"
    and pc: "cfg_threads c ! i = At_exec_and_broadcast"
    and c': "c' = c \<lparr> cfg_pool := fst (mag_worker_exec_and_broadcast i (cfg_pool c, cfg_calls c)),
                   cfg_calls := snd (mag_worker_exec_and_broadcast i (cfg_pool c, cfg_calls c)),
                   cfg_threads := (cfg_threads c) [i := At_await_work] \<rparr>"
  shows "pool_inv c'"
proof -
  from inv have wf: "pool_wf c" by (simp add: pool_inv_def)
  have nq: "\<not> quiescent c" using pc i by (auto simp: quiescent_def)
  have len: "length (cfg_threads c) = length (workers (cfg_pool c))"
    using wf by (simp add: pool_wf_def Let_def)
  have wf': "pool_wf c'"
    using wf i unfolding c' pool_wf_def Let_def
    by (auto simp: exec_fields exec_worker nth_list_update)
  have main: "cfg_main c' = cfg_main c" by (simp add: c')
  have run: "running m c'" if r: "running m c" for m
  proof -
    from r pc i have ph: "worker_phase (workers (cfg_pool c) ! i) = phase (cfg_pool c)"
      by (auto simp: running_def)
    have notin: "i \<notin> signalled c" using pc by (simp add: signalled_def)
    have sg: "signalled c' = insert i (signalled c)"
      using ph i len unfolding c' signalled_def
      by (auto simp: exec_fields exec_worker nth_list_update split: if_splits)
    have card: "card (signalled c') = Suc (card (signalled c))"
      unfolding sg using notin signalled_finite by simp
    have comp: "num_completed (cfg_pool c') = of_nat (card (signalled c') + m)"
      using r unfolding card by (simp add: c' exec_fields running_def)
    have rest: "\<forall>j. 0 < j \<and> j < length (workers (cfg_pool c')) \<and>
          cfg_threads c' ! j = At_exec_and_broadcast \<longrightarrow>
          worker_phase (workers (cfg_pool c') ! j) = phase (cfg_pool c')"
      using r len i unfolding c' running_def
      by (auto simp: exec_fields exec_worker nth_list_update split: if_splits)
    show ?thesis using comp rest by (simp add: running_def)
  qed
  show ?thesis
    using inv nq wf' run unfolding pool_inv_def main by blast
qed

lemma worker_step_inv:
  assumes "pool_inv c" and "mag_worker_step i c = Some c'"
  shows "pool_inv c'"
proof -
  from assms(1) have wf: "pool_wf c" by (simp add: pool_inv_def)
  from assms(2) have i: "i < length (cfg_threads c)" "i < length (workers (cfg_pool c))"
    "is_async (workers (cfg_pool c) ! i)"
    by (auto simp: mag_worker_step_def split: if_splits)
  from wf i have i0: "i \<noteq> 0" by (auto simp: pool_wf_def Let_def)
  from wf have ni: "\<not> interrupt (cfg_pool c)" by (simp add: pool_wf_def Let_def)
  show ?thesis
  proof (cases "cfg_threads c ! i")
    case At_await_work
    with assms(2) i ni have lt: "worker_phase (workers (cfg_pool c) ! i) < phase (cfg_pool c)"
      and c': "c' = c \<lparr> cfg_pool := (cfg_pool c) \<lparr> workers := (workers (cfg_pool c))
                     [i := (workers (cfg_pool c) ! i) \<lparr> worker_phase := phase (cfg_pool c) \<rparr>] \<rparr>,
                   cfg_threads := (cfg_threads c) [i := At_exec_and_broadcast] \<rparr>"
      by (auto simp: mag_worker_step_def await_not_interrupted split: if_splits)
    from assms(1) i(2) i0 At_await_work lt c' show ?thesis by (rule worker_wake_inv)
  next
    case At_exec_and_broadcast
    with assms(2) i have c': "c' = c \<lparr> cfg_pool := fst (mag_worker_exec_and_broadcast i (cfg_pool c, cfg_calls c)),
                   cfg_calls := snd (mag_worker_exec_and_broadcast i (cfg_pool c, cfg_calls c)),
                   cfg_threads := (cfg_threads c) [i := At_await_work] \<rparr>"
      by (auto simp: mag_worker_step_def Let_def)
    from assms(1) i(2) i0 At_exec_and_broadcast c' show ?thesis by (rule worker_exec_inv)
  next
    case Thread_exited
    with assms(2) i show ?thesis by (simp add: mag_worker_step_def)
  qed
qed

lemma completed_eq_allocated:
  fixes N :: u32
  assumes "(of_nat k :: u64) = ucast N" and "k \<le> unat N"
  shows "k = unat N"
proof -
  have n: "unat N < 2 ^ 32" using unsigned_less [of N, where 'a = nat] by simp
  then have k: "k < 2 ^ 64" using assms(2) by simp
  have "unat (of_nat k :: u64) = k" using k by (simp add: unat_of_nat)
  moreover have "unat (ucast N :: u64) = unat N"
    using n by (simp add: unsigned_ucast_eq take_bit_nat_eq_self)
  ultimately show ?thesis using assms(1) by simp
qed

lemma quiescent_if_all_signalled:
  assumes "card (signalled c) = length (workers (cfg_pool c)) - 1"
    and "0 < length (workers (cfg_pool c))"
  shows "quiescent c"
proof -
  let ?n = "length (workers (cfg_pool c))"
  have sub: "signalled c \<subseteq> {1 ..< ?n}" by (auto simp: signalled_def)
  have "card (signalled c) = card {1 ..< ?n}" using assms by simp
  with sub have "signalled c = {1 ..< ?n}" by (intro card_subset_eq) simp_all
  then have "\<forall>i. 0 < i \<and> i < ?n \<longrightarrow> i \<in> signalled c" by auto
  then show ?thesis by (simp add: quiescent_def signalled_def)
qed

lemma barrier_return_quiescent:
  assumes wf: "pool_wf c" and run: "running 1 c"
    and ret: "mag_threadpool_barrier (cfg_pool c) = Returned p"
  shows "p = cfg_pool c" and "quiescent c"
    and "num_completed (cfg_pool c) = ucast (num_allocated_workers (cfg_pool c))"
proof -
  from ret show p: "p = cfg_pool c"
    and eq: "num_completed (cfg_pool c) = ucast (num_allocated_workers (cfg_pool c))"
    by (auto simp: mag_threadpool_barrier_def split: if_splits)
  from wf have len: "length (workers (cfg_pool c)) = unat (num_allocated_workers (cfg_pool c))"
    and two: "2 \<le> length (workers (cfg_pool c))"
    by (simp_all add: pool_wf_def Let_def)
  from run eq have "(of_nat (card (signalled c) + 1) :: u64) =
      ucast (num_allocated_workers (cfg_pool c))"
    by (simp add: running_def)
  moreover have "card (signalled c) + 1 \<le> unat (num_allocated_workers (cfg_pool c))"
    using signalled_card_le [of c] two len by simp
  ultimately have "card (signalled c) + 1 = unat (num_allocated_workers (cfg_pool c))"
    by (rule completed_eq_allocated)
  then have "card (signalled c) = length (workers (cfg_pool c)) - 1" using len by simp
  moreover from two have "0 < length (workers (cfg_pool c))" by linarith
  ultimately show "quiescent c" by (rule quiescent_if_all_signalled)
qed

lemma kickoff_inv:
  assumes wf: "pool_wf c" and q: "quiescent c"
    and c': "c' = c \<lparr> cfg_pool := mag_threadpool_kickoff (cfg_pool c) nd k, cfg_main := rest \<rparr>"
  shows "pool_wf c'" and "running 0 c'"
proof -
  show "pool_wf c'"
    using wf unfolding c' pool_wf_def Let_def
    by (auto simp: kickoff_fields kickoff_worker)
  have sg: "signalled c' = {}"
    using q unfolding c' signalled_def quiescent_def
    by (auto simp: kickoff_fields kickoff_worker)
  have ex: "\<forall>i. 0 < i \<and> i < length (workers (cfg_pool c')) \<and>
          cfg_threads c' ! i = At_exec_and_broadcast \<longrightarrow>
          worker_phase (workers (cfg_pool c') ! i) = phase (cfg_pool c')"
    using q unfolding c' quiescent_def by (auto simp: kickoff_fields)
  show "running 0 c'"
    unfolding running_def sg using ex by (simp add: c' kickoff_fields)
qed

lemma main_exec_inv:
  assumes wf: "pool_wf c" and r: "running 0 c"
    and c': "c' = c \<lparr> cfg_pool := fst (mag_worker_exec_and_broadcast 0 (cfg_pool c, cfg_calls c)),
                      cfg_calls := snd (mag_worker_exec_and_broadcast 0 (cfg_pool c, cfg_calls c)),
                      cfg_main := rest \<rparr>"
  shows "pool_wf c'" and "running 1 c'"
proof -
  show "pool_wf c'"
    using wf unfolding c' pool_wf_def Let_def
    by (auto simp: exec_fields exec_worker)
  have sg: "signalled c' = signalled c"
    unfolding c' signalled_def by (auto simp: exec_fields exec_worker)
  show "running 1 c'"
    using r unfolding running_def sg unfolding c'
    by (auto simp: exec_fields exec_worker)
qed

lemma main_step_inv:
  assumes inv: "pool_inv c" and step: "mag_main_step (cfg_main c) c = Some c'"
  shows "pool_inv c'"
proof -
  from inv have wf: "pool_wf c" by (simp add: pool_inv_def)
  from inv consider
      (idle) "quiescent c" "cfg_main c = []"
    | (inline) pl where "quiescent c" "cfg_main c = [Call_exec_thread_local pl]"
    | (kick) nd k where "quiescent c"
        "cfg_main c = [Call_kickoff nd k, Call_cv_broadcast, Call_exec_and_broadcast 0, Call_barrier]"
    | (bcast) "running 0 c"
        "cfg_main c = [Call_cv_broadcast, Call_exec_and_broadcast 0, Call_barrier]"
    | (exec) "running 0 c" "cfg_main c = [Call_exec_and_broadcast 0, Call_barrier]"
    | (barrier) "running 1 c" "cfg_main c = [Call_barrier]"
    unfolding pool_inv_def by blast
  then show ?thesis
  proof cases
    case idle
    with step show ?thesis by simp
  next
    case inline
    with step have c': "c' = c \<lparr> cfg_calls := snd (mag_worker_exec_thread_local pl (cfg_calls c)),
                                 cfg_main := [] \<rparr>" by simp
    have "pool_wf c'" using wf by (simp add: c' pool_wf_def)
    moreover have "quiescent c'" using inline(1) by (simp add: c' quiescent_def)
    moreover have "cfg_main c' = []" by (simp add: c')
    ultimately show ?thesis by (simp add: pool_inv_def)
  next
    case kick
    with step have c': "c' = c \<lparr> cfg_pool := mag_threadpool_kickoff (cfg_pool c) nd k,
        cfg_main := [Call_cv_broadcast, Call_exec_and_broadcast 0, Call_barrier] \<rparr>" by simp
    from kickoff_inv [OF wf kick(1) c'] have "pool_wf c'" "running 0 c'" by simp_all
    moreover have "cfg_main c' = [Call_cv_broadcast, Call_exec_and_broadcast 0, Call_barrier]"
      by (simp add: c')
    ultimately show ?thesis by (simp add: pool_inv_def)
  next
    case bcast
    with step have c': "c' = c \<lparr> cfg_main := [Call_exec_and_broadcast 0, Call_barrier] \<rparr>"
      by simp
    have "pool_wf c'" using wf by (simp add: c' pool_wf_def)
    moreover have "running 0 c'" using bcast(1) by (simp add: c' running_def signalled_def)
    moreover have "cfg_main c' = [Call_exec_and_broadcast 0, Call_barrier]" by (simp add: c')
    ultimately show ?thesis by (simp add: pool_inv_def)
  next
    case exec
    with step have c': "c' = c \<lparr>
        cfg_pool := fst (mag_worker_exec_and_broadcast 0 (cfg_pool c, cfg_calls c)),
        cfg_calls := snd (mag_worker_exec_and_broadcast 0 (cfg_pool c, cfg_calls c)),
        cfg_main := [Call_barrier] \<rparr>" by (simp add: Let_def)
    from main_exec_inv [OF wf exec(1) c'] have "pool_wf c'" "running 1 c'" by simp_all
    moreover have "cfg_main c' = [Call_barrier]" by (simp add: c')
    ultimately show ?thesis by (simp add: pool_inv_def)
  next
    case barrier
    with step obtain p where ret: "mag_threadpool_barrier (cfg_pool c) = Returned p"
      and c': "c' = c \<lparr> cfg_pool := p, cfg_main := [] \<rparr>"
      by (auto split: mag_blocking.splits)
    from barrier_return_quiescent [OF wf barrier(1) ret]
    have p: "p = cfg_pool c" and q: "quiescent c" by simp_all
    have "pool_wf c'" using wf by (simp add: c' p pool_wf_def)
    moreover have "quiescent c'" using q by (simp add: c' p quiescent_def)
    moreover have "cfg_main c' = []" by (simp add: c')
    ultimately show ?thesis by (simp add: pool_inv_def)
  qed
qed

lemma exec_fwd_calls:
  assumes "mag_cpu_exec_fwd fp dvc nd = Inr calls"
  shows "(\<exists>pl. calls = [Call_exec_thread_local pl]) \<or>
         (\<exists>k. calls = [Call_kickoff nd k, Call_cv_broadcast, Call_exec_and_broadcast 0, Call_barrier])"
  using assms
  by (auto simp: mag_cpu_exec_fwd_def mag_threadpool_parallel_compute_def Let_def
      split: if_splits option.splits)

lemma step_inv:
  assumes inv: "pool_inv c" and step: "mag_step fp dvc who c = Some c'"
  shows "pool_inv c'"
proof (cases who)
  case (Submit nd)
  with step obtain calls where m: "cfg_main c = []"
    and e: "mag_cpu_exec_fwd fp dvc nd = Inr calls" and c': "c' = c \<lparr> cfg_main := calls \<rparr>"
    by (auto simp: mag_step_def split: if_splits sum.splits)
  from inv m have wf: "pool_wf c" and q: "quiescent c" by (auto simp: pool_inv_def)
  have "pool_wf c'" using wf by (simp add: c' pool_wf_def)
  moreover have "quiescent c'" using q by (simp add: c' quiescent_def)
  moreover have "cfg_main c' = calls" by (simp add: c')
  ultimately show ?thesis using exec_fwd_calls [OF e] unfolding pool_inv_def by auto
next
  case Main_thread
  with step have "mag_main_step (cfg_main c) c = Some c'" by (simp add: mag_step_def)
  with inv show ?thesis by (rule main_step_inv)
next
  case (Worker_thread i)
  with step have "mag_worker_step i c = Some c'" by (simp add: mag_step_def)
  with inv show ?thesis by (rule worker_step_inv)
qed

lemma run_inv:
  assumes "pool_inv c" and "mag_run fp dvc sched c = Some c'"
  shows "pool_inv c'"
  using assms
proof (induction sched arbitrary: c)
  case Nil
  then show ?case by simp
next
  case (Cons who sched)
  from Cons.prems(2) obtain c1 where s: "mag_step fp dvc who c = Some c1"
    and r: "mag_run fp dvc sched c1 = Some c'"
    by (auto split: option.splits)
  from Cons.prems(1) s have "pool_inv c1" by (rule step_inv)
  then show ?case using r by (rule Cons.IH)
qed

lemma create_fields:
  "length (workers (mag_threadpool_create n)) = unat n"
  "num_allocated_workers (mag_threadpool_create n) = n"
  "interrupt (mag_threadpool_create n) = False"
  "phase (mag_threadpool_create n) = 0"
  "num_completed (mag_threadpool_create n) = 0"
  by (simp_all add: mag_threadpool_create_def)

lemma create_worker:
  assumes "i < unat n"
  shows "worker_phase (workers (mag_threadpool_create n) ! i) = 0"
    and "is_async (workers (mag_threadpool_create n) ! i) = (i \<noteq> 0)"
    and "node (payload (workers (mag_threadpool_create n) ! i)) = None"
  using assms by (simp_all add: mag_threadpool_create_def)

lemma init_inv:
  assumes "1 < n"
  shows "pool_inv (mag_config_init (mag_threadpool_create n))"
proof -
  let ?c = "mag_config_init (mag_threadpool_create n)"
  from assms have two: "2 \<le> unat n" by (simp add: word_less_nat_alt)
  have "pool_wf ?c"
    using two by (simp add: pool_wf_def mag_config_init_def create_fields create_worker)
  moreover have "quiescent ?c"
    by (simp add: quiescent_def mag_config_init_def create_fields create_worker)
  moreover have "cfg_main ?c = []" by (simp add: mag_config_init_def)
  ultimately show ?thesis by (simp add: pool_inv_def)
qed

text \<open>
  Whatever the schedule: when the barrier returns on a pool of more than one worker, the
  completion counter equals the number of allocated workers and every worker with a thread
  has the phase of the pool, while the phase of worker 0 is 0, as it is in every reachable
  configuration.
\<close>

lemma pool_barrier_return:
  assumes n: "1 < n"
    and run: "mag_run fp dvc sched (mag_config_init (mag_threadpool_create n)) = Some c"
    and main: "cfg_main c = Call_barrier # rest"
    and ret: "mag_threadpool_barrier (cfg_pool c) = Returned p"
  shows "num_completed p = ucast (num_allocated_workers p)"
    and "\<forall>i. 0 < i \<and> i < unat (num_allocated_workers p) \<longrightarrow>
           worker_phase (workers p ! i) = phase p"
    and "worker_phase (workers p ! 0) = 0"
proof -
  from init_inv [OF n] run have inv: "pool_inv c" by (rule run_inv)
  then have wf: "pool_wf c" by (simp add: pool_inv_def)
  from inv main have r: "running 1 c" by (auto simp: pool_inv_def)
  from barrier_return_quiescent [OF wf r ret]
  have p: "p = cfg_pool c" and q: "quiescent c"
    and e: "num_completed (cfg_pool c) = ucast (num_allocated_workers (cfg_pool c))"
    by simp_all
  show "num_completed p = ucast (num_allocated_workers p)" using e p by simp
  show "\<forall>i. 0 < i \<and> i < unat (num_allocated_workers p) \<longrightarrow>
           worker_phase (workers p ! i) = phase p"
    using q wf p by (simp add: quiescent_def pool_wf_def Let_def)
  show "worker_phase (workers p ! 0) = 0" using wf p by (simp add: pool_wf_def Let_def)
qed

lemma pool_worker0_phase:
  assumes "1 < n"
    and "mag_run fp dvc sched (mag_config_init (mag_threadpool_create n)) = Some c"
  shows "worker_phase (workers (cfg_pool c) ! 0) = 0"
proof -
  from init_inv [OF assms(1)] assms(2) have "pool_inv c" by (rule run_inv)
  then show ?thesis by (simp add: pool_inv_def pool_wf_def Let_def)
qed

lemma pool2_unfold:
  "mag_threadpool_create 2 =
     \<lparr> interrupt = False, phase = 0, num_completed = 0, num_allocated_workers = 2,
       num_active_workers = 2, num_workers_online = 1,
       workers = [\<lparr> worker_phase = 0, payload = \<lparr> node = None, thread_idx = 0, thread_num = 2 \<rparr>,
                    is_async = False \<rparr>,
                  \<lparr> worker_phase = 0, payload = \<lparr> node = None, thread_idx = 1, thread_num = 2 \<rparr>,
                    is_async = True \<rparr>] \<rparr>"
  by (simp add: mag_threadpool_create_def upt_rec)

lemma exec_fwd_dvc2_big:
  "mag_cpu_exec_fwd (fp_table 0) dvc2 nd_big =
     Inr [Call_kickoff nd_big 2, Call_cv_broadcast, Call_exec_and_broadcast 0, Call_barrier]"
  by (simp add: mag_cpu_exec_fwd_def nd_big_def scaling_values dvc_fields
      mag_threadpool_parallel_compute_def word_le_nat_alt)


text \<open>
  C1. One kickoff and barrier cycle on a pool of two workers, for a node of
  \<open>250000 + 2^20\<close> elements (the floating-point expression is 6 there, the width 2): when
  the barrier returns, the
  completion counter equals the number of allocated workers and the phase of worker 1 equals
  the phase of the pool, which is 1; the phase of worker 0 is still 0. Worker 0 is the
  calling thread: it runs \<open>mag_worker_exec_and_broadcast\<close> and never
  \<open>mag_worker_await_work\<close>, the one place where a worker's phase is written.
\<close>

theorem barrier_return_worker0_phase_stale:
  "\<exists>c. mag_run (fp_table 0) dvc2 cycle2 (mag_config_init (mag_threadpool_create 2)) = Some c \<and>
        cfg_main c = [] \<and>
        num_completed (cfg_pool c) = ucast (num_allocated_workers (cfg_pool c)) \<and>
        phase (cfg_pool c) = 1 \<and>
        worker_phase (workers (cfg_pool c) ! 1) = 1 \<and>
        worker_phase (workers (cfg_pool c) ! 0) = 0 \<and>
        worker_phase (workers (cfg_pool c) ! 0) \<noteq> phase (cfg_pool c)"
  by (simp add: cycle2_def pool2_unfold mag_config_init_def mag_step_def exec_fwd_dvc2_big
      mag_threadpool_kickoff_def mag_worker_step_def mag_worker_await_work_def
      mag_worker_exec_and_broadcast_def mag_worker_exec_thread_local_def
      mag_threadpool_barrier_def Let_def)


end
